theory Spec2Isabelle
  imports Main "HOL-Library.Word"
begin

section \<open>The \<open>why\<close> command of the package manager (\<open>src/cli/commands/why.js\<close>)\<close>

text \<open>
  The command normalises a query string (\<open>cleanQuery\<close>), looks the query up in the flat
  hoisted tree, and explains the match: the chains of requests that depend on it, the
  manifest sections that specify it, and the keys it was hoisted from.

  The model follows the source function by function. The reporter is a log of the calls
  made on it; an exception is a value of type \<open>error\<close>.
\<close>

subsection \<open>Strings\<close>

text \<open>
  A JavaScript string is a sequence of UTF-16 code units. The regular expressions of
  \<open>cleanQuery\<close> have no \<open>u\<close> flag, so they work on code units, and \<open>.\<close> excludes
  the four line terminators, two of which lie beyond one byte.
\<close>

type_synonym jschar = "16 word"
type_synonym jsstring = "jschar list"

definition js :: "string \<Rightarrow> jsstring" where
  \<comment> \<open>a literal of the source, one code unit per character\<close>
  "js s = map of_char s"

definition hash :: jschar where
  "hash = 0x23"

definition isSep :: "jschar \<Rightarrow> bool" where
  \<comment> \<open>the character class \<^verbatim>\<open>[\\/]\<close>\<close>
  "isSep c \<longleftrightarrow> c = 0x5C \<or> c = 0x2F"

definition isLineTerminator :: "jschar \<Rightarrow> bool" where
  \<comment> \<open>what \<^verbatim>\<open>.\<close> does not match: LF, CR, U+2028, U+2029\<close>
  "isLineTerminator c \<longleftrightarrow> c = 0x0A \<or> c = 0x0D \<or> c = 0x2028 \<or> c = 0x2029"

subsection \<open>\<open>cleanQuery\<close>\<close>

text \<open>
  \<^verbatim>\<open>path.isAbsolute\<close>, \<^verbatim>\<open>path.relative\<close> and \<^verbatim>\<open>fs.exists\<close> belong to the platform and
  the file system; they are parameters, together with \<^verbatim>\<open>config.cwd\<close>.
\<close>

record env =
  cwd :: jsstring
  path_isAbsolute :: "jsstring \<Rightarrow> bool"
  path_relative :: "jsstring \<Rightarrow> jsstring \<Rightarrow> jsstring"
  fs_exists :: "jsstring \<Rightarrow> bool"

definition startsNodeModulesSep :: "jsstring \<Rightarrow> bool" where
  \<comment> \<open>\<^verbatim>\<open>node_modules[\\/]\<close> matches at the head of the string\<close>
  "startsNodeModulesSep s \<longleftrightarrow>
     take 12 s = js ''node_modules'' \<and> (case drop 12 s of [] \<Rightarrow> False | c # _ \<Rightarrow> isSep c)"

text \<open>
  \<^verbatim>\<open>query.replace(/([\\/]|^)node_modules[\\/]/g, '#')\<close>: the scan goes left to right; at
  each position the first alternative (a separator) is tried before \<^verbatim>\<open>^\<close>, which holds
  at the start of the input only; after a match the scan resumes behind it.
\<close>

fun replaceNodeModules :: "bool \<Rightarrow> jsstring \<Rightarrow> jsstring" where
  "replaceNodeModules atStart [] = []"
| "replaceNodeModules atStart (c # cs) =
     (if isSep c \<and> startsNodeModulesSep cs then hash # replaceNodeModules False (drop 13 cs)
      else if atStart \<and> startsNodeModulesSep (c # cs) then hash # replaceNodeModules False (drop 12 cs)
      else c # replaceNodeModules False cs)"

definition removeLeadingHashes :: "jsstring \<Rightarrow> jsstring" where
  \<comment> \<open>\<^verbatim>\<open>query.replace(/^#+/g, '')\<close>: \<^verbatim>\<open>^\<close> holds at position 0 only, so one match at most\<close>
  "removeLeadingHashes s = dropWhile (\<lambda>c. c = hash) s"

text \<open>
  \<^verbatim>\<open>query.replace(/[\\/](.*?)$/g, '')\<close>: without the \<open>m\<close> flag \<^verbatim>\<open>$\<close> is the end of the
  input, so a separator starts a match only if no line terminator follows it; the match
  then runs to the end.
\<close>

fun removePathAfter :: "jsstring \<Rightarrow> jsstring" where
  "removePathAfter [] = []"
| "removePathAfter (c # cs) =
     (if isSep c \<and> \<not> list_ex isLineTerminator cs then [] else c # removePathAfter cs)"

definition cleanQuery :: "env \<Rightarrow> jsstring \<Rightarrow> jsstring" where
  "cleanQuery config query0 =
     (let query1 = (if path_isAbsolute config query0 \<and> fs_exists config query0
                    then path_relative config (cwd config) query0 else query0);
          query2 = replaceNodeModules True query1;
          query3 = removeLeadingHashes query2
      in removePathAfter query3)"

subsection \<open>Requests, packages and the hoisted tree\<close>

text \<open>
  A request names a pattern and, unless it is a root request, the request that
  discovered it. The back-references form a finite chain.
\<close>

datatype request = Request (pattern: jsstring) (parentRequest: "request option")

record packageReference =
  patterns :: "jsstring list"
  requests :: "request list"

record manifest =
  name :: jsstring
  reference :: "packageReference option" \<comment> \<open>the field \<^verbatim>\<open>_reference\<close>\<close>

record hoistManifest =
  key :: jsstring
  previousKeys :: "jsstring list"
  originalKey :: jsstring
  pkg :: manifest

datatype error =
    TypeError \<comment> \<open>\<^verbatim>\<open>path.isAbsolute(undefined)\<close>, when no argument was given\<close>
  | InvariantViolation string
  | UnresolvedPatternError jsstring

type_synonym resolver = "jsstring \<rightharpoonup> manifest"

definition getResolvedPattern :: "resolver \<Rightarrow> jsstring \<Rightarrow> manifest option" where
  \<comment> \<open>Modelled from the spec: the resolver's lenient accessor is not part of the source
      at hand; it returns the resolved package of a pattern, or none.\<close>
  "getResolvedPattern res p = res p"

definition getStrictResolvedPattern :: "resolver \<Rightarrow> jsstring \<Rightarrow> error + manifest" where
  \<comment> \<open>Modelled from the spec: the resolver's strict accessor is not part of the source
      at hand; it fails with \<open>UnresolvedPatternError\<close> if the pattern is absent.\<close>
  "getStrictResolvedPattern res p =
     (case getResolvedPattern res p of None \<Rightarrow> Inl (UnresolvedPatternError p) | Some m \<Rightarrow> Inr m)"

text \<open>
  What the initialisation of \<open>run\<close> leaves behind: the resolver after \<^verbatim>\<open>init\<close>, the
  origin of the root patterns, and the flat hoisted tree in its iteration order. The
  lockfile, the resolver and the linker that build them are not part of the source at
  hand; \<open>run\<close> is modelled for an initialisation that has succeeded.
\<close>

record install =
  resolver :: resolver
  rootPatternsToOrigin :: "jsstring \<rightharpoonup> jsstring"
  flatHoistedTree :: "(jsstring \<times> hoistManifest) list"

subsection \<open>The reporter\<close>

datatype emoji = ThinkingFace | Truck | Mag

datatype lang =
    WhyStart | WhyInitGraph | WhyFinding | WhyUnknownMatch
  | WhyDependedOn jsstring | WhySpecified jsstring
  | WhyHoistedTo jsstring | WhyHoistedFrom jsstring
  | WhyReason lang | WhyReasons | WhyWhoKnows
  | WhyDiskSizeWithout jsstring | WhyDiskSizeUnique jsstring
  | WhyDiskSizeTransitive jsstring | WhySharedDependencies int

datatype report =
    RStep nat nat lang emoji
  | RError lang
  | RInfo lang
  | RList jsstring "lang list"

subsection \<open>\<open>run\<close>\<close>

fun indexOf :: "'a list \<Rightarrow> 'a \<Rightarrow> int" where
  "indexOf [] x = - 1"
| "indexOf (y # ys) x =
     (if y = x then 0 else (let i = indexOf ys x in if i < 0 then - 1 else i + 1))"

text \<open>The search loop: the first entry that matches ends it.\<close>

fun findMatch :: "(jsstring \<times> hoistManifest) list \<Rightarrow> jsstring \<Rightarrow> hoistManifest option" where
  "findMatch [] query = None"
| "findMatch ((k, info) # rest) query =
     (if key info = query \<or> indexOf (previousKeys info) query \<ge> 0 then Some info
      else findMatch rest query)"

fun join :: "jsstring list \<Rightarrow> jsstring \<Rightarrow> jsstring" where
  "join [] sep = []"
| "join [x] sep = x"
| "join (x # y # ys) sep = x @ sep @ join (y # ys) sep"

text \<open>The \<^verbatim>\<open>do ... while\<close> loop: one name per delegator, from the parent to the root.\<close>

fun chainWalk :: "resolver \<Rightarrow> request \<Rightarrow> jsstring list \<Rightarrow> error + jsstring list" where
  "chainWalk res (Request p parent) chain =
     (case getStrictResolvedPattern res p of
        Inl e \<Rightarrow> Inl e
      | Inr m \<Rightarrow>
          (case parent of
             None \<Rightarrow> Inr (chain @ [name m])
           | Some delegator \<Rightarrow> chainWalk res delegator (chain @ [name m])))"

fun dependedOnReasons :: "resolver \<Rightarrow> request list \<Rightarrow> lang list \<Rightarrow> error + lang list" where
  "dependedOnReasons res [] reasons = Inr reasons"
| "dependedOnReasons res (request # rest) reasons =
     (case parentRequest request of
        None \<Rightarrow> dependedOnReasons res rest reasons
      | Some parent \<Rightarrow>
          (case getResolvedPattern res (pattern parent) of
             None \<Rightarrow> dependedOnReasons res rest reasons
           | Some dependent \<Rightarrow>
               (case chainWalk res parent [] of
                  Inl e \<Rightarrow> Inl e
                | Inr chain \<Rightarrow>
                    dependedOnReasons res rest
                      (reasons @ [WhyDependedOn (join (rev chain) [hash])]))))"

text \<open>\<^verbatim>\<open>if (rootType)\<close>: an absent entry and the empty string are both falsy.\<close>

fun specifiedReasons :: "(jsstring \<rightharpoonup> jsstring) \<Rightarrow> jsstring list \<Rightarrow> lang list \<Rightarrow> lang list" where
  "specifiedReasons origin [] reasons = reasons"
| "specifiedReasons origin (p # rest) reasons =
     (case origin p of
        None \<Rightarrow> specifiedReasons origin rest reasons
      | Some rootType \<Rightarrow>
          (if rootType \<noteq> [] then specifiedReasons origin rest (reasons @ [WhySpecified rootType])
           else specifiedReasons origin rest reasons))"

fun hoistedFromReasons :: "jsstring \<Rightarrow> jsstring list \<Rightarrow> lang list \<Rightarrow> lang list" where
  "hoistedFromReasons matchKey [] reasons = reasons"
| "hoistedFromReasons matchKey (p # rest) reasons =
     (if p \<noteq> matchKey then hoistedFromReasons matchKey rest (reasons @ [WhyHoistedFrom p])
      else hoistedFromReasons matchKey rest reasons)"

definition reportReasons :: "lang list \<Rightarrow> report list" where
  "reportReasons reasons =
     (if length reasons = 1 then [RInfo (WhyReason (reasons ! 0))]
      else if length reasons > 1 then [RInfo WhyReasons, RList (js ''reasons'') reasons]
      else [RError WhyWhoKnows])"

text \<open>
  \<open>run\<close> returns the reporter's log and the exception that ended it, if any.
  \<^verbatim>\<open>args[0]\<close> of an empty argument list is \<^verbatim>\<open>undefined\<close>, which \<^verbatim>\<open>path.isAbsolute\<close> rejects
  before anything is reported.
\<close>

definition run :: "env \<Rightarrow> install \<Rightarrow> jsstring list \<Rightarrow> report list \<times> error option" where
  "run config inst args =
     (case args of
        [] \<Rightarrow> ([], Some TypeError)
      | arg0 # _ \<Rightarrow>
          (let query = cleanQuery config arg0;
               log = [RStep 1 3 WhyStart ThinkingFace, RStep 2 3 WhyInitGraph Truck,
                      RStep 3 3 WhyFinding Mag]
           in case findMatch (flatHoistedTree inst) query of
                None \<Rightarrow> (log @ [RError WhyUnknownMatch], None)
              | Some match \<Rightarrow>
                  (case reference (pkg match) of
                     None \<Rightarrow> (log, Some (InvariantViolation ''expected reference''))
                   | Some matchRef \<Rightarrow>
                       (case dependedOnReasons (resolver inst) (requests matchRef) [] of
                          Inl e \<Rightarrow> (log, Some e)
                        | Inr reasons1 \<Rightarrow>
                            (let reasons2 = specifiedReasons (rootPatternsToOrigin inst)
                                              (patterns matchRef) reasons1;
                                 log2 = (if query = originalKey match
                                         then log @ [RInfo (WhyHoistedTo (key match))] else log);
                                 reasons3 = hoistedFromReasons (key match) (previousKeys match)
                                              reasons2
                             in (log2 @ reportReasons reasons3 @
                                   [RInfo (WhyDiskSizeWithout (js ''0MB'')),
                                    RInfo (WhyDiskSizeUnique (js ''0MB'')),
                                    RInfo (WhyDiskSizeTransitive (js ''0MB'')),
                                    RInfo (WhySharedDependencies 0)], None))))))"

subsection \<open>Reading the outcome\<close>

text \<open>
  The requests met by following \<^verbatim>\<open>parentRequest\<close> from a request to the root, the
  request itself first. Its length is the depth of the chain.
\<close>

fun parentChain :: "request \<Rightarrow> request list" where
  "parentChain (Request p parent) =
     Request p parent # (case parent of None \<Rightarrow> [] | Some delegator \<Rightarrow> parentChain delegator)"

text \<open>
  The reasons that reach the user: the one reason of \<^verbatim>\<open>whyReason\<close>, or the items of the
  list of reasons.
\<close>

definition reasonsOf :: "report \<Rightarrow> lang list" where
  "reasonsOf r = (case r of RInfo (WhyReason reason) \<Rightarrow> [reason] | RList _ reasons \<Rightarrow> reasons | _ \<Rightarrow> [])"

definition reportedReasons :: "report list \<Rightarrow> lang list" where
  "reportedReasons log = concat (map reasonsOf log)"

definition hasResolvedParent :: "resolver \<Rightarrow> request \<Rightarrow> bool" where
  \<comment> \<open>the requests that pass both \<^verbatim>\<open>continue\<close> guards of the first loop\<close>
  "hasResolvedParent res request =
     (case parentRequest request of
        None \<Rightarrow> False
      | Some parent \<Rightarrow> getResolvedPattern res (pattern parent) \<noteq> None)"

definition isDependedOn :: "lang \<Rightarrow> bool" where
  "isDependedOn r = (case r of WhyDependedOn _ \<Rightarrow> True | _ \<Rightarrow> False)"

definition isSpecified :: "lang \<Rightarrow> bool" where
  "isSpecified r = (case r of WhySpecified _ \<Rightarrow> True | _ \<Rightarrow> False)"

definition isHoistedFrom :: "lang \<Rightarrow> bool" where
  "isHoistedFrom r = (case r of WhyHoistedFrom _ \<Rightarrow> True | _ \<Rightarrow> False)"

subsection \<open>An example project\<close>

text \<open>
  A POSIX platform (\<^verbatim>\<open>path.isAbsolute\<close> asks for a leading slash) whose file system holds
  nothing, so that \<^verbatim>\<open>path.relative\<close> is never called.
\<close>

definition posixNoFiles :: env where
  "posixNoFiles =
     \<lparr>cwd = js ''/project'',
      path_isAbsolute = (\<lambda>p. case p of [] \<Rightarrow> False | c # _ \<Rightarrow> c = 0x2F),
      path_relative = (\<lambda>from to. to),
      fs_exists = (\<lambda>p. False)\<rparr>"

text \<open>
  The manifest asks for \<open>a\<close>, which asks for \<open>b\<close>, which asks for \<open>c\<close>; \<open>d\<close> is a
  second root. Hoisting moved \<open>b\<close> and \<open>c\<close> to the top; \<open>d\<close> once sat at a key that
  \<open>c\<close> held before.
\<close>

definition reqA :: request where
  "reqA = Request (js ''a@^1.0.0'') None"

definition reqB :: request where
  "reqB = Request (js ''b@^1.0.0'') (Some reqA)"

definition reqC :: request where
  "reqC = Request (js ''c@^1.0.0'') (Some reqB)"

definition reqD :: request where
  "reqD = Request (js ''d@^1.0.0'') None"

definition pkgA :: manifest where
  "pkgA = \<lparr>name = js ''a'', reference = Some \<lparr>patterns = [js ''a@^1.0.0''], requests = [reqA]\<rparr>\<rparr>"

definition pkgB :: manifest where
  "pkgB = \<lparr>name = js ''b'', reference = Some \<lparr>patterns = [js ''b@^1.0.0''], requests = [reqB]\<rparr>\<rparr>"

definition pkgC :: manifest where
  "pkgC = \<lparr>name = js ''c'', reference = Some \<lparr>patterns = [js ''c@^1.0.0''], requests = [reqC]\<rparr>\<rparr>"

definition pkgD :: manifest where
  "pkgD = \<lparr>name = js ''d'', reference = Some \<lparr>patterns = [js ''d@^1.0.0''], requests = [reqD]\<rparr>\<rparr>"

definition infoA :: hoistManifest where
  "infoA = \<lparr>key = js ''a'', previousKeys = [], originalKey = js ''a'', pkg = pkgA\<rparr>"

definition infoB :: hoistManifest where
  "infoB = \<lparr>key = js ''b'', previousKeys = [js ''a#b''], originalKey = js ''a#b'', pkg = pkgB\<rparr>"

definition infoC :: hoistManifest where
  "infoC = \<lparr>key = js ''c'', previousKeys = [js ''a#b#c'', js ''a#c'', js ''c''],
            originalKey = js ''a#b#c'', pkg = pkgC\<rparr>"

definition infoD :: hoistManifest where
  "infoD = \<lparr>key = js ''d'', previousKeys = [js ''a#c''], originalKey = js ''a#c'', pkg = pkgD\<rparr>"

definition exampleInstall :: install where
  "exampleInstall =
     \<lparr>resolver = [js ''a@^1.0.0'' \<mapsto> pkgA, js ''b@^1.0.0'' \<mapsto> pkgB, js ''c@^1.0.0'' \<mapsto> pkgC,
                  js ''d@^1.0.0'' \<mapsto> pkgD],
      rootPatternsToOrigin = [js ''a@^1.0.0'' \<mapsto> js ''dependencies'',
                              js ''d@^1.0.0'' \<mapsto> js ''devDependencies''],
      flatHoistedTree = [(js ''a'', infoA), (js ''b'', infoB), (js ''c'', infoC), (js ''d'', infoD)]\<rparr>"


section \<open>Properties\<close>

lemmas example_defs =
  posixNoFiles_def exampleInstall_def reqA_def reqB_def reqC_def reqD_def
  pkgA_def pkgB_def pkgC_def pkgD_def infoA_def infoB_def infoC_def infoD_def

lemmas string_defs =
  js_def hash_def isSep_def isLineTerminator_def startsNodeModulesSep_def
  removeLeadingHashes_def cleanQuery_def

lemmas run_defs =
  run_def Let_def getResolvedPattern_def getStrictResolvedPattern_def reportReasons_def

subsection \<open>\<open>cleanQuery\<close>\<close>

lemma startsNodeModulesSep_has_sep:
  "startsNodeModulesSep s \<Longrightarrow> \<exists>c\<in>set s. isSep c"
proof -
  assume "startsNodeModulesSep s"
  then obtain c cs where d: "drop 12 s = c # cs" and c: "isSep c"
    by (auto simp: startsNodeModulesSep_def split: list.splits)
  from d have "c \<in> set (drop 12 s)" by simp
  then have "c \<in> set s" by (rule in_set_dropD)
  with c show ?thesis by blast
qed

lemma replaceNodeModules_no_sep:
  "\<forall>c\<in>set s. \<not> isSep c \<Longrightarrow> replaceNodeModules b s = s"
proof (induction s arbitrary: b)
  case Nil
  show ?case by simp
next
  case (Cons c cs)
  have "\<not> startsNodeModulesSep (c # cs)"
    using Cons.prems startsNodeModulesSep_has_sep by blast
  moreover have "\<not> isSep c"
    using Cons.prems by simp
  moreover have "replaceNodeModules False cs = cs"
    using Cons by simp
  ultimately show ?case by simp
qed

lemma set_replaceNodeModules:
  "set (replaceNodeModules b s) \<subseteq> insert hash (set s)"
proof (induction b s rule: replaceNodeModules.induct)
  case (1 atStart)
  show ?case by simp
next
  case (2 atStart c cs)
  have d13: "set (drop 13 cs) \<subseteq> set cs" and d12: "set (drop 12 cs) \<subseteq> set cs"
    by (rule set_drop_subset)+
  show ?case
  proof (cases "isSep c \<and> startsNodeModulesSep cs")
    case True
    with "2.IH"(1) d13 show ?thesis by auto
  next
    case False
    show ?thesis
    proof (cases "atStart \<and> startsNodeModulesSep (c # cs)")
      case True
      with False "2.IH"(2) d12 show ?thesis by auto
    next
      case nomatch: False
      with False "2.IH"(3) show ?thesis by auto
    qed
  qed
qed

lemma hash_not_lineTerminator: "\<not> isLineTerminator hash"
  by (simp add: isLineTerminator_def hash_def)

lemma removePathAfter_takeWhile:
  "\<not> list_ex isLineTerminator s \<Longrightarrow> removePathAfter s = takeWhile (\<lambda>c. \<not> isSep c) s"
  by (induction s) (auto simp: list_ex_iff)

lemma removePathAfter_no_sep:
  "\<forall>c\<in>set s. \<not> isSep c \<Longrightarrow> removePathAfter s = s"
  by (induction s) auto

lemma removeLeadingHashes_id:
  "s = [] \<or> hd s \<noteq> hash \<Longrightarrow> removeLeadingHashes s = s"
  by (cases s) (auto simp: removeLeadingHashes_def)

lemma removeLeadingHashes_hd:
  "removeLeadingHashes s = [] \<or> hd (removeLeadingHashes s) \<noteq> hash"
  using hd_dropWhile [of "\<lambda>c. c = hash" s] by (auto simp: removeLeadingHashes_def)

lemma takeWhile_hd:
  "s = [] \<or> hd s \<noteq> h \<Longrightarrow> takeWhile P s = [] \<or> hd (takeWhile P s) \<noteq> h"
  by (cases s) auto

lemma cleaned_form:
  assumes "\<not> list_ex isLineTerminator s"
  shows "\<not> list_ex isSep (removePathAfter (removeLeadingHashes (replaceNodeModules True s)))"
    and "removePathAfter (removeLeadingHashes (replaceNodeModules True s)) = [] \<or>
         hd (removePathAfter (removeLeadingHashes (replaceNodeModules True s))) \<noteq> hash"
proof -
  let ?s3 = "removeLeadingHashes (replaceNodeModules True s)"
  have "set ?s3 \<subseteq> insert hash (set s)"
    using set_replaceNodeModules [of True s] set_dropWhileD [of _ "\<lambda>c. c = hash" "replaceNodeModules True s"]
    by (auto simp: removeLeadingHashes_def)
  with assms have nl: "\<not> list_ex isLineTerminator ?s3"
    using hash_not_lineTerminator by (auto simp: list_ex_iff)
  then have tw: "removePathAfter ?s3 = takeWhile (\<lambda>c. \<not> isSep c) ?s3"
    by (rule removePathAfter_takeWhile)
  show "\<not> list_ex isSep (removePathAfter ?s3)"
    unfolding tw by (auto simp: list_ex_iff dest: set_takeWhileD)
  show "removePathAfter ?s3 = [] \<or> hd (removePathAfter ?s3) \<noteq> hash"
    unfolding tw using removeLeadingHashes_hd [of "replaceNodeModules True s"] by (rule takeWhile_hd)
qed

lemma cleaned_fixpoint:
  assumes "\<not> list_ex isSep r" and "r = [] \<or> hd r \<noteq> hash"
  shows "removePathAfter (removeLeadingHashes (replaceNodeModules True r)) = r"
proof -
  from assms(1) have ns: "\<forall>c\<in>set r. \<not> isSep c" by (simp add: list_ex_iff)
  then have "replaceNodeModules True r = r" by (rule replaceNodeModules_no_sep)
  moreover have "removeLeadingHashes r = r" using assms(2) by (rule removeLeadingHashes_id)
  moreover have "removePathAfter r = r" using ns by (rule removePathAfter_no_sep)
  ultimately show ?thesis by simp
qed


text \<open>
  Without a line terminator in the query the three replacements do what their comments
  say: the cleaned form has no path separator and no leading \<open>#\<close>, and cleaning it again
  changes nothing.
\<close>

lemma cleanQuery_idempotent_without_line_terminator:
  assumes "\<not> (path_isAbsolute config q \<and> fs_exists config q)"
      and "\<not> (path_isAbsolute config (cleanQuery config q) \<and> fs_exists config (cleanQuery config q))"
      and "\<not> list_ex isLineTerminator q"
  shows "cleanQuery config (cleanQuery config q) = cleanQuery config q
         \<and> \<not> list_ex isSep (cleanQuery config q)
         \<and> (cleanQuery config q = [] \<or> hd (cleanQuery config q) \<noteq> hash)"
proof -
  let ?r = "removePathAfter (removeLeadingHashes (replaceNodeModules True q))"
  have r: "cleanQuery config q = ?r"
    using assms(1) by (auto simp: cleanQuery_def)
  have ns: "\<not> list_ex isSep ?r" and nh: "?r = [] \<or> hd ?r \<noteq> hash"
    using assms(3) by (rule cleaned_form)+
  have "cleanQuery config ?r = removePathAfter (removeLeadingHashes (replaceNodeModules True ?r))"
    using assms(2) unfolding r by (auto simp: cleanQuery_def)
  also have "\<dots> = ?r" using ns nh by (rule cleaned_fixpoint)
  finally show ?thesis using ns nh r by simp
qed

lemma cleanQuery_example:
  "cleanQuery posixNoFiles (js ''node_modules/foo/node_modules/bar/index.js'') = js ''foo#bar''
   \<and> cleanQuery posixNoFiles (js ''foo#bar'') = js ''foo#bar''"
  by (simp add: posixNoFiles_def string_defs)

text \<open>
  Claim C9: for every query that is not an absolute existing path, cleaning twice is
  cleaning once, and the result has no path separator and no leading \<open>#\<close>. The comments
  of \<open>cleanQuery\<close> say as much (references to \<^verbatim>\<open>node_modules\<close> become hashes, the path after
  the last hash is removed), and the code misses it on a query with a line terminator.
  In \<^verbatim>\<open>node_modules/node_modules/a\<close> followed by a line feed, the first replacement
  consumes the leading \<^verbatim>\<open>node_modules/\<close> only, and the last one finds no separator from
  which \<^verbatim>\<open>.\<close> reaches the end of the input: the result keeps a reference to
  \<^verbatim>\<open>node_modules\<close> and its \<^verbatim>\<open>/\<close>, and a second pass rewrites it again.
\<close>

theorem cleanQuery_line_terminator_failure:
  "\<not> (path_isAbsolute posixNoFiles (js (''node_modules/node_modules/a'' @ [CHR 0x0A]))
      \<and> fs_exists posixNoFiles (js (''node_modules/node_modules/a'' @ [CHR 0x0A])))
   \<and> cleanQuery posixNoFiles (js (''node_modules/node_modules/a'' @ [CHR 0x0A]))
       = js (''node_modules/a'' @ [CHR 0x0A])
   \<and> list_ex isSep (cleanQuery posixNoFiles (js (''node_modules/node_modules/a'' @ [CHR 0x0A])))
   \<and> cleanQuery posixNoFiles (cleanQuery posixNoFiles (js (''node_modules/node_modules/a'' @ [CHR 0x0A])))
       = js (''a'' @ [CHR 0x0A])
   \<and> cleanQuery posixNoFiles (cleanQuery posixNoFiles (js (''node_modules/node_modules/a'' @ [CHR 0x0A])))
       \<noteq> cleanQuery posixNoFiles (js (''node_modules/node_modules/a'' @ [CHR 0x0A]))"
  by (simp add: posixNoFiles_def string_defs)

subsection \<open>The search for the match\<close>

lemma indexOf_nonneg: "indexOf xs x \<ge> 0 \<longleftrightarrow> x \<in> set xs"
  by (induction xs) (auto simp: Let_def)


lemma findMatch_no_match:
  "\<forall>entry\<in>set hoisted. key (snd entry) \<noteq> query \<and> query \<notin> set (previousKeys (snd entry)) \<Longrightarrow>
     findMatch hoisted query = None"
  by (induction hoisted) (auto simp: indexOf_nonneg)

text \<open>
  Claim C1: the search selects the first entry, in iteration order, whose key is the query
  or whose previous keys contain the query. Entries behind it do not matter, whether they
  match or not, and a key a package held before still finds it.
\<close>

theorem findMatch_first_match:
  assumes "i < length hoisted"
      and "key (snd (hoisted ! i)) = query \<or> query \<in> set (previousKeys (snd (hoisted ! i)))"
      and "\<forall>j<i. key (snd (hoisted ! j)) \<noteq> query \<and> query \<notin> set (previousKeys (snd (hoisted ! j)))"
  shows "findMatch hoisted query = Some (snd (hoisted ! i))"
  using assms
proof (induction hoisted arbitrary: i)
  case Nil
  then show ?case by simp
next
  case (Cons e rest)
  obtain k info where e: "e = (k, info)" by (cases e)
  show ?case
  proof (cases i)
    case 0
    with Cons.prems(2) e show ?thesis by (simp add: indexOf_nonneg)
  next
    case (Suc n)
    from Cons.prems(3) Suc have "key (snd ((e # rest) ! 0)) \<noteq> query \<and> query \<notin> set (previousKeys (snd ((e # rest) ! 0)))"
      by blast
    with e have nomatch: "\<not> (key info = query \<or> indexOf (previousKeys info) query \<ge> 0)"
      by (simp add: indexOf_nonneg)
    have "findMatch rest query = Some (snd (rest ! n))"
    proof (rule Cons.IH)
      show "n < length rest" using Cons.prems(1) Suc by simp
      show "key (snd (rest ! n)) = query \<or> query \<in> set (previousKeys (snd (rest ! n)))"
        using Cons.prems(2) Suc by simp
      show "\<forall>j<n. key (snd (rest ! j)) \<noteq> query \<and> query \<notin> set (previousKeys (snd (rest ! j)))"
      proof (intro allI impI)
        fix j assume "j < n"
        then have "Suc j < i" using Suc by simp
        with Cons.prems(3) show "key (snd (rest ! j)) \<noteq> query \<and> query \<notin> set (previousKeys (snd (rest ! j)))"
          by fastforce
      qed
    qed
    with nomatch e Suc show ?thesis by simp
  qed
qed


theorem findMatch_first_match_witness:
  "findMatch (flatHoistedTree exampleInstall) (js ''a#c'') = Some infoC
   \<and> js ''a#c'' \<in> set (previousKeys (snd (flatHoistedTree exampleInstall ! 3)))"
proof -
  let ?hoisted = "flatHoistedTree exampleInstall"
  have h1: "2 < length ?hoisted"
    by (simp add: exampleInstall_def)
  have h2: "key (snd (?hoisted ! 2)) = js ''a#c'' \<or> js ''a#c'' \<in> set (previousKeys (snd (?hoisted ! 2)))"
    by (simp add: exampleInstall_def infoC_def js_def)
  have h3: "\<forall>j<2. key (snd (?hoisted ! j)) \<noteq> js ''a#c''
              \<and> js ''a#c'' \<notin> set (previousKeys (snd (?hoisted ! j)))"
    by (simp add: exampleInstall_def infoA_def infoB_def js_def less_Suc_eq numeral_2_eq_2)
  have later: "js ''a#c'' \<in> set (previousKeys (snd (?hoisted ! 3)))"
    by (simp add: exampleInstall_def infoD_def)
  from findMatch_first_match [OF h1 h2 h3] later show ?thesis
    by (simp add: exampleInstall_def)
qed

subsection \<open>The loops of \<open>run\<close>\<close>

lemma chainWalk_names:
  "chainWalk res d acc = Inr chain \<Longrightarrow>
     \<exists>names. chain = acc @ names \<and>
       list_all2 (\<lambda>ancestor n. \<exists>m. getStrictResolvedPattern res (pattern ancestor) = Inr m \<and> n = name m)
         (parentChain d) names"
proof (induction res d acc arbitrary: chain rule: chainWalk.induct)
  case (1 res p parent acc)
  from "1.prems" obtain m where m: "getResolvedPattern res p = Some m"
    and strict: "getStrictResolvedPattern res p = Inr m"
    by (auto simp: getStrictResolvedPattern_def split: option.splits)
  show ?case
  proof (cases parent)
    case None
    with "1.prems" strict have "chain = acc @ [name m]" by simp
    with None strict show ?thesis by simp
  next
    case (Some delegator)
    with "1.prems" strict have "chainWalk res delegator (acc @ [name m]) = Inr chain" by simp
    with "1.IH" [OF strict Some] obtain names where
      "chain = (acc @ [name m]) @ names"
      "list_all2 (\<lambda>ancestor n. \<exists>m. getStrictResolvedPattern res (pattern ancestor) = Inr m \<and> n = name m)
         (parentChain delegator) names"
      by blast
    with Some strict show ?thesis by simp
  qed
qed

lemma chainWalk_complete:
  "\<forall>ancestor\<in>set (parentChain d). getResolvedPattern res (pattern ancestor) \<noteq> None \<Longrightarrow>
     \<exists>chain. chainWalk res d acc = Inr chain"
proof (induction res d acc rule: chainWalk.induct)
  case (1 res p parent acc)
  from "1.prems" obtain m where m: "getResolvedPattern res p = Some m" by auto
  then have strict: "getStrictResolvedPattern res p = Inr m"
    by (simp add: getStrictResolvedPattern_def)
  show ?case
  proof (cases parent)
    case None
    with strict show ?thesis by simp
  next
    case (Some delegator)
    with "1.prems" have "\<forall>ancestor\<in>set (parentChain delegator). getResolvedPattern res (pattern ancestor) \<noteq> None"
      by simp
    with "1.IH" [OF strict Some] Some strict show ?thesis by simp
  qed
qed

lemma dependedOnReasons_skip:
  "\<not> hasResolvedParent res request \<Longrightarrow>
     dependedOnReasons res (request # rest) reasons = dependedOnReasons res rest reasons"
  by (simp add: hasResolvedParent_def split: option.splits)

lemma dependedOnReasons_chains:
  "dependedOnReasons res reqs acc = Inr reasons \<Longrightarrow>
     \<exists>ds. reasons = acc @ ds \<and>
       list_all2 (\<lambda>request reason. \<exists>parent names.
            parentRequest request = Some parent
          \<and> reason = WhyDependedOn (join names [hash])
          \<and> length names = length (parentChain parent)
          \<and> list_all2 (\<lambda>ancestor n. \<exists>m. getStrictResolvedPattern res (pattern ancestor) = Inr m \<and> n = name m)
               (rev (parentChain parent)) names)
         (filter (hasResolvedParent res) reqs) ds"
proof (induction reqs arbitrary: acc)
  case Nil
  then show ?case by simp
next
  case (Cons request rest)
  show ?case
  proof (cases "hasResolvedParent res request")
    case False
    from Cons.prems have "dependedOnReasons res rest acc = Inr reasons"
      unfolding dependedOnReasons_skip [OF False] .
    from Cons.IH [OF this] False show ?thesis by simp
  next
    case True
    then obtain parent dependent where parent: "parentRequest request = Some parent"
      and dep: "getResolvedPattern res (pattern parent) = Some dependent"
      by (auto simp: hasResolvedParent_def split: option.splits)
    with Cons.prems obtain chain where chain: "chainWalk res parent [] = Inr chain"
      and rest: "dependedOnReasons res rest (acc @ [WhyDependedOn (join (rev chain) [hash])]) = Inr reasons"
      by (auto split: sum.splits)
    from chainWalk_names [OF chain] have names:
      "list_all2 (\<lambda>ancestor n. \<exists>m. getStrictResolvedPattern res (pattern ancestor) = Inr m \<and> n = name m)
         (parentChain parent) chain"
      by simp
    then have len: "length (rev chain) = length (parentChain parent)"
      by (simp add: list_all2_lengthD)
    from names have rev_names:
      "list_all2 (\<lambda>ancestor n. \<exists>m. getStrictResolvedPattern res (pattern ancestor) = Inr m \<and> n = name m)
         (rev (parentChain parent)) (rev chain)"
      by (simp only: list_all2_rev)
    from Cons.IH [OF rest] obtain ds where ds: "reasons = (acc @ [WhyDependedOn (join (rev chain) [hash])]) @ ds"
      and all: "list_all2 (\<lambda>request reason. \<exists>parent names.
            parentRequest request = Some parent
          \<and> reason = WhyDependedOn (join names [hash])
          \<and> length names = length (parentChain parent)
          \<and> list_all2 (\<lambda>ancestor n. \<exists>m. getStrictResolvedPattern res (pattern ancestor) = Inr m \<and> n = name m)
               (rev (parentChain parent)) names)
         (filter (hasResolvedParent res) rest) ds"
      by blast
    have "reasons = acc @ (WhyDependedOn (join (rev chain) [hash]) # ds)"
      using ds by simp
    moreover have "list_all2 (\<lambda>request reason. \<exists>parent names.
            parentRequest request = Some parent
          \<and> reason = WhyDependedOn (join names [hash])
          \<and> length names = length (parentChain parent)
          \<and> list_all2 (\<lambda>ancestor n. \<exists>m. getStrictResolvedPattern res (pattern ancestor) = Inr m \<and> n = name m)
               (rev (parentChain parent)) names)
         (filter (hasResolvedParent res) (request # rest)) (WhyDependedOn (join (rev chain) [hash]) # ds)"
      using True parent len rev_names all by auto
    ultimately show ?thesis by blast
  qed
qed

lemma dependedOnReasons_all_dependedOn:
  "dependedOnReasons res reqs acc = Inr reasons \<Longrightarrow>
     \<exists>ds. reasons = acc @ ds \<and> filter isDependedOn ds = ds \<and> filter isSpecified ds = [] \<and> filter isHoistedFrom ds = []"
proof (induction reqs arbitrary: acc)
  case Nil
  then show ?case by simp
next
  case (Cons request rest)
  show ?case
  proof (cases "hasResolvedParent res request")
    case False
    from Cons.prems have "dependedOnReasons res rest acc = Inr reasons"
      unfolding dependedOnReasons_skip [OF False] .
    from Cons.IH [OF this] show ?thesis .
  next
    case True
    then obtain parent dependent where parent: "parentRequest request = Some parent"
      and dep: "getResolvedPattern res (pattern parent) = Some dependent"
      by (auto simp: hasResolvedParent_def split: option.splits)
    with Cons.prems obtain chain where
      rest: "dependedOnReasons res rest (acc @ [WhyDependedOn (join (rev chain) [hash])]) = Inr reasons"
      by (auto split: sum.splits)
    from Cons.IH [OF rest] obtain ds where "reasons = (acc @ [WhyDependedOn (join (rev chain) [hash])]) @ ds"
      "filter isDependedOn ds = ds" "filter isSpecified ds = []" "filter isHoistedFrom ds = []"
      by blast
    then have "reasons = acc @ (WhyDependedOn (join (rev chain) [hash]) # ds)
       \<and> filter isDependedOn (WhyDependedOn (join (rev chain) [hash]) # ds) = WhyDependedOn (join (rev chain) [hash]) # ds
       \<and> filter isSpecified (WhyDependedOn (join (rev chain) [hash]) # ds) = []
       \<and> filter isHoistedFrom (WhyDependedOn (join (rev chain) [hash]) # ds) = []"
      by (simp add: isDependedOn_def isSpecified_def isHoistedFrom_def)
    then show ?thesis by blast
  qed
qed

lemma dependedOnReasons_none_eligible:
  "\<forall>request\<in>set reqs. \<not> hasResolvedParent res request \<Longrightarrow> dependedOnReasons res reqs acc = Inr acc"
  by (induction reqs) (simp_all add: dependedOnReasons_skip del: dependedOnReasons.simps(2))

lemma dependedOnReasons_complete:
  "\<forall>request\<in>set reqs. \<forall>parent. parentRequest request = Some parent \<longrightarrow>
      (\<forall>ancestor\<in>set (parentChain parent). getResolvedPattern res (pattern ancestor) \<noteq> None) \<Longrightarrow>
   \<exists>reasons. dependedOnReasons res reqs acc = Inr reasons"
proof (induction reqs arbitrary: acc)
  case Nil
  show ?case by simp
next
  case (Cons request rest)
  from Cons.prems have rest: "\<forall>request\<in>set rest. \<forall>parent. parentRequest request = Some parent \<longrightarrow>
      (\<forall>ancestor\<in>set (parentChain parent). getResolvedPattern res (pattern ancestor) \<noteq> None)"
    by simp
  show ?case
  proof (cases "parentRequest request")
    case None
    with Cons.IH [OF rest] show ?thesis by simp
  next
    case (Some parent)
    with Cons.prems have "\<forall>ancestor\<in>set (parentChain parent). getResolvedPattern res (pattern ancestor) \<noteq> None"
      by simp
    from chainWalk_complete [OF this] obtain chain where "chainWalk res parent [] = Inr chain"
      by blast
    with Some Cons.IH [OF rest] show ?thesis by (simp split: option.splits)
  qed
qed

lemma specifiedReasons_eq:
  "specifiedReasons origin ps acc =
     acc @ map WhySpecified (filter (\<lambda>rootType. rootType \<noteq> []) (List.map_filter origin ps))"
  by (induction ps arbitrary: acc) (simp_all add: List.map_filter_simps split: option.splits)

lemma hoistedFromReasons_eq:
  "hoistedFromReasons matchKey ps acc = acc @ map WhyHoistedFrom (filter (\<lambda>p. p \<noteq> matchKey) ps)"
  by (induction ps arbitrary: acc) simp_all

lemma filter_map_WhySpecified:
  "filter isSpecified (map WhySpecified xs) = map WhySpecified xs"
  "filter isDependedOn (map WhySpecified xs) = []"
  "filter isHoistedFrom (map WhySpecified xs) = []"
  by (induction xs) (simp_all add: isSpecified_def isDependedOn_def isHoistedFrom_def)

lemma filter_map_WhyHoistedFrom:
  "filter isHoistedFrom (map WhyHoistedFrom xs) = map WhyHoistedFrom xs"
  "filter isDependedOn (map WhyHoistedFrom xs) = []"
  "filter isSpecified (map WhyHoistedFrom xs) = []"
  by (induction xs) (simp_all add: isSpecified_def isDependedOn_def isHoistedFrom_def)

subsection \<open>The whole of \<open>run\<close>\<close>

lemma reportedReasons_append:
  "reportedReasons (xs @ ys) = reportedReasons xs @ reportedReasons ys"
  by (simp add: reportedReasons_def)

lemma reportedReasons_Cons:
  "reportedReasons (r # log) = reasonsOf r @ reportedReasons log"
  by (simp add: reportedReasons_def)

lemma reportedReasons_reportReasons:
  "reportedReasons (reportReasons reasons) = reasons"
proof (cases reasons)
  case Nil
  then show ?thesis by (simp add: reportReasons_def reportedReasons_def reasonsOf_def)
next
  case (Cons r rs)
  then show ?thesis by (cases rs) (simp_all add: reportReasons_def reportedReasons_def reasonsOf_def)
qed

lemma run_matched:
  assumes "findMatch (flatHoistedTree inst) (cleanQuery config arg0) = Some match"
      and "reference (pkg match) = Some matchRef"
      and "dependedOnReasons (resolver inst) (requests matchRef) [] = Inr reasons1"
  shows "run config inst (arg0 # rest) =
           ([RStep 1 3 WhyStart ThinkingFace, RStep 2 3 WhyInitGraph Truck, RStep 3 3 WhyFinding Mag]
            @ (if cleanQuery config arg0 = originalKey match then [RInfo (WhyHoistedTo (key match))] else [])
            @ reportReasons (hoistedFromReasons (key match) (previousKeys match)
                (specifiedReasons (rootPatternsToOrigin inst) (patterns matchRef) reasons1))
            @ [RInfo (WhyDiskSizeWithout (js ''0MB'')), RInfo (WhyDiskSizeUnique (js ''0MB'')),
               RInfo (WhyDiskSizeTransitive (js ''0MB'')), RInfo (WhySharedDependencies 0)],
            None)"
  using assms by (simp add: run_def Let_def)

lemma run_normal:
  assumes "run config inst (arg0 # rest) = (log, None)"
      and "findMatch (flatHoistedTree inst) (cleanQuery config arg0) = Some match"
  shows "\<exists>matchRef reasons1. reference (pkg match) = Some matchRef
           \<and> dependedOnReasons (resolver inst) (requests matchRef) [] = Inr reasons1"
  using assms by (auto simp: run_def Let_def split: option.splits sum.splits)

lemma run_reportedReasons:
  assumes "findMatch (flatHoistedTree inst) (cleanQuery config arg0) = Some match"
      and "reference (pkg match) = Some matchRef"
      and "dependedOnReasons (resolver inst) (requests matchRef) [] = Inr reasons1"
  shows "reportedReasons (fst (run config inst (arg0 # rest))) =
           reasons1
           @ map WhySpecified (filter (\<lambda>rootType. rootType \<noteq> [])
               (List.map_filter (rootPatternsToOrigin inst) (patterns matchRef)))
           @ map WhyHoistedFrom (filter (\<lambda>p. p \<noteq> key match) (previousKeys match))"
proof -
  have steps: "reportedReasons [RStep 1 3 WhyStart ThinkingFace, RStep 2 3 WhyInitGraph Truck,
      RStep 3 3 WhyFinding Mag] = []"
    by (simp add: reportedReasons_def reasonsOf_def)
  have hoistedTo: "reportedReasons (if cleanQuery config arg0 = originalKey match
      then [RInfo (WhyHoistedTo (key match))] else []) = []"
    by (simp add: reportedReasons_def reasonsOf_def)
  have stats: "reportedReasons [RInfo (WhyDiskSizeWithout (js ''0MB'')), RInfo (WhyDiskSizeUnique (js ''0MB'')),
      RInfo (WhyDiskSizeTransitive (js ''0MB'')), RInfo (WhySharedDependencies 0)] = []"
    by (simp add: reportedReasons_def reasonsOf_def)
  show ?thesis
    unfolding run_matched [OF assms] fst_conv reportedReasons_append steps hoistedTo stats
      reportedReasons_reportReasons hoistedFromReasons_eq specifiedReasons_eq
    by simp
qed



lemma hoistedTo_not_in_reportReasons:
  "RInfo (WhyHoistedTo k) \<notin> set (reportReasons reasons)"
  by (simp add: reportReasons_def)

lemma run_log:
  assumes "run config inst (arg0 # rest) = (log, None)"
      and "findMatch (flatHoistedTree inst) (cleanQuery config arg0) = Some match"
  shows "\<exists>reasons. log =
           [RStep 1 3 WhyStart ThinkingFace, RStep 2 3 WhyInitGraph Truck, RStep 3 3 WhyFinding Mag]
            @ (if cleanQuery config arg0 = originalKey match then [RInfo (WhyHoistedTo (key match))] else [])
            @ reportReasons reasons
            @ [RInfo (WhyDiskSizeWithout (js ''0MB'')), RInfo (WhyDiskSizeUnique (js ''0MB'')),
               RInfo (WhyDiskSizeTransitive (js ''0MB'')), RInfo (WhySharedDependencies 0)]"
proof -
  from run_normal [OF assms] obtain matchRef reasons1 where
    ref: "reference (pkg match) = Some matchRef" and
    dep: "dependedOnReasons (resolver inst) (requests matchRef) [] = Inr reasons1"
    by blast
  let ?reasons = "hoistedFromReasons (key match) (previousKeys match)
                (specifiedReasons (rootPatternsToOrigin inst) (patterns matchRef) reasons1)"
  let ?log = "[RStep 1 3 WhyStart ThinkingFace, RStep 2 3 WhyInitGraph Truck, RStep 3 3 WhyFinding Mag]
            @ (if cleanQuery config arg0 = originalKey match then [RInfo (WhyHoistedTo (key match))] else [])
            @ reportReasons ?reasons
            @ [RInfo (WhyDiskSizeWithout (js ''0MB'')), RInfo (WhyDiskSizeUnique (js ''0MB'')),
               RInfo (WhyDiskSizeTransitive (js ''0MB'')), RInfo (WhySharedDependencies 0)]"
  have "run config inst (arg0 # rest) = (?log, None)"
    by (rule run_matched [OF assms(2) ref dep])
  with assms(1) have "(log, None :: error option) = (?log, None)"
    by (simp only:)
  then have eq: "log = ?log"
    by (simp only: prod.inject simp_thms)
  show ?thesis
    by (rule exI [of _ ?reasons]) (rule eq)
qed

lemma run_reasons:
  assumes "run config inst (arg0 # rest) = (log, None)"
      and "findMatch (flatHoistedTree inst) (cleanQuery config arg0) = Some match"
      and "reference (pkg match) = Some matchRef"
  shows "\<exists>reasons1. dependedOnReasons (resolver inst) (requests matchRef) [] = Inr reasons1
           \<and> reportedReasons log =
               reasons1
               @ map WhySpecified (filter (\<lambda>rootType. rootType \<noteq> [])
                   (List.map_filter (rootPatternsToOrigin inst) (patterns matchRef)))
               @ map WhyHoistedFrom (filter (\<lambda>p. p \<noteq> key match) (previousKeys match))"
proof -
  from run_normal [OF assms(1,2)] assms(3) obtain reasons1 where
    dep: "dependedOnReasons (resolver inst) (requests matchRef) [] = Inr reasons1"
    by auto
  have "log = fst (run config inst (arg0 # rest))"
    by (simp only: assms(1) fst_conv)
  then have "reportedReasons log =
               reasons1
               @ map WhySpecified (filter (\<lambda>rootType. rootType \<noteq> [])
                   (List.map_filter (rootPatternsToOrigin inst) (patterns matchRef)))
               @ map WhyHoistedFrom (filter (\<lambda>p. p \<noteq> key match) (previousKeys match))"
    by (simp only: run_reportedReasons [OF assms(2,3) dep])
  with dep show ?thesis by blast
qed

subsection \<open>The example project, run\<close>

lemma run_example_c:
  "run posixNoFiles exampleInstall [js ''c''] =
     ([RStep 1 3 WhyStart ThinkingFace, RStep 2 3 WhyInitGraph Truck, RStep 3 3 WhyFinding Mag,
       RInfo WhyReasons,
       RList (js ''reasons'')
         [WhyDependedOn (js ''a#b''), WhyHoistedFrom (js ''a#b#c''), WhyHoistedFrom (js ''a#c'')],
       RInfo (WhyDiskSizeWithout (js ''0MB'')), RInfo (WhyDiskSizeUnique (js ''0MB'')),
       RInfo (WhyDiskSizeTransitive (js ''0MB'')), RInfo (WhySharedDependencies 0)], None)"
  by (simp add: run_defs example_defs string_defs)

lemma run_example_a:
  "run posixNoFiles exampleInstall [js ''a''] =
     ([RStep 1 3 WhyStart ThinkingFace, RStep 2 3 WhyInitGraph Truck, RStep 3 3 WhyFinding Mag,
       RInfo (WhyHoistedTo (js ''a'')),
       RInfo (WhyReason (WhySpecified (js ''dependencies''))),
       RInfo (WhyDiskSizeWithout (js ''0MB'')), RInfo (WhyDiskSizeUnique (js ''0MB'')),
       RInfo (WhyDiskSizeTransitive (js ''0MB'')), RInfo (WhySharedDependencies 0)], None)"
  by (simp add: run_defs example_defs string_defs)

lemma run_example_abc:
  "run posixNoFiles exampleInstall [js ''a#b#c''] =
     ([RStep 1 3 WhyStart ThinkingFace, RStep 2 3 WhyInitGraph Truck, RStep 3 3 WhyFinding Mag,
       RInfo (WhyHoistedTo (js ''c'')),
       RInfo WhyReasons,
       RList (js ''reasons'')
         [WhyDependedOn (js ''a#b''), WhyHoistedFrom (js ''a#b#c''), WhyHoistedFrom (js ''a#c'')],
       RInfo (WhyDiskSizeWithout (js ''0MB'')), RInfo (WhyDiskSizeUnique (js ''0MB'')),
       RInfo (WhyDiskSizeTransitive (js ''0MB'')), RInfo (WhySharedDependencies 0)], None)"
  by (simp add: run_defs example_defs string_defs)

lemma findMatch_example_c:
  "findMatch (flatHoistedTree exampleInstall) (cleanQuery posixNoFiles (js ''c'')) = Some infoC"
  by (simp add: example_defs string_defs)

lemma findMatch_example_a:
  "findMatch (flatHoistedTree exampleInstall) (cleanQuery posixNoFiles (js ''a'')) = Some infoA"
  by (simp add: example_defs string_defs)

lemma findMatch_example_abc:
  "findMatch (flatHoistedTree exampleInstall) (cleanQuery posixNoFiles (js ''a#b#c'')) = Some infoC"
  by (simp add: example_defs string_defs)

lemma reportedReasons_example_c:
  "reportedReasons (fst (run posixNoFiles exampleInstall [js ''c''])) =
     [WhyDependedOn (js ''a#b''), WhyHoistedFrom (js ''a#b#c''), WhyHoistedFrom (js ''a#c'')]"
  unfolding run_example_c by (simp add: reportedReasons_def reasonsOf_def)

lemma reportedReasons_example_a:
  "reportedReasons (fst (run posixNoFiles exampleInstall [js ''a''])) = [WhySpecified (js ''dependencies'')]"
  unfolding run_example_a by (simp add: reportedReasons_def reasonsOf_def)

lemma reference_infoA:
  "reference (pkg infoA) = Some \<lparr>patterns = [js ''a@^1.0.0''], requests = [reqA]\<rparr>"
  by (simp add: infoA_def pkgA_def)

lemma reference_infoC:
  "reference (pkg infoC) = Some \<lparr>patterns = [js ''c@^1.0.0''], requests = [reqC]\<rparr>"
  by (simp add: infoC_def pkgC_def)

text \<open>The failure of the strict accessor is a branch that runs do take.\<close>

lemma run_example_unresolved:
  "run posixNoFiles (exampleInstall\<lparr>resolver := (resolver exampleInstall)(js ''a@^1.0.0'' := None)\<rparr>)
     [js ''c''] =
     ([RStep 1 3 WhyStart ThinkingFace, RStep 2 3 WhyInitGraph Truck, RStep 3 3 WhyFinding Mag],
      Some (UnresolvedPatternError (js ''a@^1.0.0'')))"
  by (simp add: run_defs example_defs string_defs)

lemma run_no_argument:
  "run config inst [] = ([], Some TypeError)"
  by (simp add: run_def)

subsection \<open>What \<open>run\<close> reports\<close>

lemma parentChain_nonempty: "parentChain d \<noteq> []"
  by (cases d) simp

lemma join_hash:
  "names \<noteq> [] \<Longrightarrow> join names [hash] = hd names @ concat (map ((#) hash) (tl names))"
  by (induction names "[hash]" rule: join.induct) simp_all

lemma strict_resolved:
  "getStrictResolvedPattern res p = Inr m \<Longrightarrow> res p = Some m"
  by (simp add: getStrictResolvedPattern_def getResolvedPattern_def split: option.splits)

text \<open>
  Claim C2: when \<open>run\<close> returns, the depended-on reasons it reports are, in order, one
  for each request of the matched package that has a parent whose pattern is resolved.
  Each reason is made of package names only: the names of the packages that the resolver
  holds for the requests on the parent chain, the root first and the parent last, as
  many names as the parent chain is deep; the reason is the first name followed by each
  further name behind a \<open>#\<close>.
\<close>

theorem dependedOn_chain_names:
  assumes "run config inst (arg0 # rest) = (log, None)"
      and "findMatch (flatHoistedTree inst) (cleanQuery config arg0) = Some match"
      and "reference (pkg match) = Some matchRef"
  shows "list_all2
           (\<lambda>request reason. \<exists>parent names.
                parentRequest request = Some parent
              \<and> reason = WhyDependedOn (hd names @ concat (map ((#) hash) (tl names)))
              \<and> length names = length (parentChain parent)
              \<and> list_all2
                  (\<lambda>ancestor n. \<exists>m. resolver inst (pattern ancestor) = Some m \<and> n = name m)
                  (rev (parentChain parent)) names)
           (filter (hasResolvedParent (resolver inst)) (requests matchRef))
           (filter isDependedOn (reportedReasons log))"
proof -
  from run_reasons [OF assms] obtain reasons1 where
    dep: "dependedOnReasons (resolver inst) (requests matchRef) [] = Inr reasons1" and
    reasons: "reportedReasons log =
               reasons1
               @ map WhySpecified (filter (\<lambda>rootType. rootType \<noteq> [])
                   (List.map_filter (rootPatternsToOrigin inst) (patterns matchRef)))
               @ map WhyHoistedFrom (filter (\<lambda>p. p \<noteq> key match) (previousKeys match))"
    by blast
  from dependedOnReasons_all_dependedOn [OF dep] have "filter isDependedOn reasons1 = reasons1"
    by auto
  then have reported: "filter isDependedOn (reportedReasons log) = reasons1"
    unfolding reasons by (simp add: filter_map_WhySpecified filter_map_WhyHoistedFrom)
  from dependedOnReasons_chains [OF dep]
  have joined: "list_all2
           (\<lambda>request reason. \<exists>parent names.
                parentRequest request = Some parent
              \<and> reason = WhyDependedOn (join names [hash])
              \<and> length names = length (parentChain parent)
              \<and> list_all2
                  (\<lambda>ancestor n. \<exists>m. getStrictResolvedPattern (resolver inst) (pattern ancestor) = Inr m
                                    \<and> n = name m)
                  (rev (parentChain parent)) names)
           (filter (hasResolvedParent (resolver inst)) (requests matchRef)) reasons1"
    by simp
  have "list_all2
           (\<lambda>request reason. \<exists>parent names.
                parentRequest request = Some parent
              \<and> reason = WhyDependedOn (hd names @ concat (map ((#) hash) (tl names)))
              \<and> length names = length (parentChain parent)
              \<and> list_all2
                  (\<lambda>ancestor n. \<exists>m. resolver inst (pattern ancestor) = Some m \<and> n = name m)
                  (rev (parentChain parent)) names)
           (filter (hasResolvedParent (resolver inst)) (requests matchRef)) reasons1"
    using joined
  proof (rule list_all2_mono)
    fix request reason
    assume "\<exists>parent names.
                parentRequest request = Some parent
              \<and> reason = WhyDependedOn (join names [hash])
              \<and> length names = length (parentChain parent)
              \<and> list_all2
                  (\<lambda>ancestor n. \<exists>m. getStrictResolvedPattern (resolver inst) (pattern ancestor) = Inr m
                                    \<and> n = name m)
                  (rev (parentChain parent)) names"
    then obtain parent names where
      parent: "parentRequest request = Some parent" and
      reason: "reason = WhyDependedOn (join names [hash])" and
      len: "length names = length (parentChain parent)" and
      strict: "list_all2
                  (\<lambda>ancestor n. \<exists>m. getStrictResolvedPattern (resolver inst) (pattern ancestor) = Inr m
                                    \<and> n = name m)
                  (rev (parentChain parent)) names"
      by blast
    from len parentChain_nonempty [of parent] have "names \<noteq> []"
      by auto
    then have flat: "join names [hash] = hd names @ concat (map ((#) hash) (tl names))"
      by (rule join_hash)
    from strict have held: "list_all2
                  (\<lambda>ancestor n. \<exists>m. resolver inst (pattern ancestor) = Some m \<and> n = name m)
                  (rev (parentChain parent)) names"
      by (rule list_all2_mono) (blast dest: strict_resolved)
    from parent reason len held flat
    show "\<exists>parent names.
                parentRequest request = Some parent
              \<and> reason = WhyDependedOn (hd names @ concat (map ((#) hash) (tl names)))
              \<and> length names = length (parentChain parent)
              \<and> list_all2
                  (\<lambda>ancestor n. \<exists>m. resolver inst (pattern ancestor) = Some m \<and> n = name m)
                  (rev (parentChain parent)) names"
      by auto
  qed
  with reported show ?thesis by (simp only:)
qed

theorem dependedOn_chain_names_witness:
  "filter (hasResolvedParent (resolver exampleInstall)) [reqC] = [reqC]
   \<and> parentRequest reqC = Some reqB
   \<and> rev (parentChain reqB) = [reqA, reqB]
   \<and> filter isDependedOn (reportedReasons (fst (run posixNoFiles exampleInstall [js ''c''])))
       = [WhyDependedOn (js ''a#b'')]
   \<and> list_all2
        (\<lambda>request reason. \<exists>parent names.
             parentRequest request = Some parent
           \<and> reason = WhyDependedOn (hd names @ concat (map ((#) hash) (tl names)))
           \<and> length names = length (parentChain parent)
           \<and> list_all2
               (\<lambda>ancestor n. \<exists>m. resolver exampleInstall (pattern ancestor) = Some m \<and> n = name m)
               (rev (parentChain parent)) names)
        [reqC]
        [WhyDependedOn (js ''a#b'')]"
proof -
  have eligible: "filter (hasResolvedParent (resolver exampleInstall)) [reqC] = [reqC]"
    by (simp add: hasResolvedParent_def getResolvedPattern_def example_defs js_def)
  have parent: "parentRequest reqC = Some reqB"
    by (simp add: reqC_def)
  have chain: "rev (parentChain reqB) = [reqA, reqB]"
    by (simp add: reqB_def reqA_def)
  have reported: "filter isDependedOn (reportedReasons (fst (run posixNoFiles exampleInstall [js ''c''])))
       = [WhyDependedOn (js ''a#b'')]"
    unfolding reportedReasons_example_c
    by (simp add: isDependedOn_def)
  from dependedOn_chain_names [OF run_example_c findMatch_example_c reference_infoC]
  have "list_all2
        (\<lambda>request reason. \<exists>parent names.
             parentRequest request = Some parent
           \<and> reason = WhyDependedOn (hd names @ concat (map ((#) hash) (tl names)))
           \<and> length names = length (parentChain parent)
           \<and> list_all2
               (\<lambda>ancestor n. \<exists>m. resolver exampleInstall (pattern ancestor) = Some m \<and> n = name m)
               (rev (parentChain parent)) names)
        [reqC]
        [WhyDependedOn (js ''a#b'')]"
    by (simp only: packageReference.simps eligible reported [unfolded run_example_c fst_conv])
  with eligible parent chain reported show ?thesis by (simp only: simp_thms)
qed

text \<open>
  Claim C3, as stated: a hoisted-to fact is reported only when the key of the match
  differs from its original key. It fails: the test compares the query, not the key, with
  the original key, so a package that never moved and is asked for by its key is reported
  as hoisted to that key.
\<close>

theorem hoistedTo_unrelocated_counterexample:
  "findMatch (flatHoistedTree exampleInstall) (cleanQuery posixNoFiles (js ''a'')) = Some infoA
   \<and> key infoA = originalKey infoA
   \<and> previousKeys infoA = []
   \<and> run posixNoFiles exampleInstall [js ''a''] =
       ([RStep 1 3 WhyStart ThinkingFace, RStep 2 3 WhyInitGraph Truck, RStep 3 3 WhyFinding Mag,
         RInfo (WhyHoistedTo (js ''a'')),
         RInfo (WhyReason (WhySpecified (js ''dependencies''))),
         RInfo (WhyDiskSizeWithout (js ''0MB'')), RInfo (WhyDiskSizeUnique (js ''0MB'')),
         RInfo (WhyDiskSizeTransitive (js ''0MB'')), RInfo (WhySharedDependencies 0)], None)"
  using findMatch_example_a run_example_a by (simp add: infoA_def)

text \<open>
  Claim C3, amended: when \<open>run\<close> returns with a match, a hoisted-to fact is in the log
  exactly when the cleaned query equals the original key of the match, and it carries the
  current key of the match.
\<close>

theorem hoistedTo_iff_query_is_originalKey:
  assumes "run config inst (arg0 # rest) = (log, None)"
      and "findMatch (flatHoistedTree inst) (cleanQuery config arg0) = Some match"
  shows "RInfo (WhyHoistedTo k) \<in> set log
         \<longleftrightarrow> cleanQuery config arg0 = originalKey match \<and> k = key match"
proof -
  from run_log [OF assms] obtain reasons where
    log: "log =
           [RStep 1 3 WhyStart ThinkingFace, RStep 2 3 WhyInitGraph Truck, RStep 3 3 WhyFinding Mag]
            @ (if cleanQuery config arg0 = originalKey match then [RInfo (WhyHoistedTo (key match))] else [])
            @ reportReasons reasons
            @ [RInfo (WhyDiskSizeWithout (js ''0MB'')), RInfo (WhyDiskSizeUnique (js ''0MB'')),
               RInfo (WhyDiskSizeTransitive (js ''0MB'')), RInfo (WhySharedDependencies 0)]"
    by blast
  show ?thesis
    unfolding log using hoistedTo_not_in_reportReasons [of k reasons] by auto
qed

theorem hoistedTo_iff_query_is_originalKey_witness:
  "RInfo (WhyHoistedTo (js ''c'')) \<in> set (fst (run posixNoFiles exampleInstall [js ''a#b#c'']))
   \<and> cleanQuery posixNoFiles (js ''a#b#c'') = originalKey infoC
   \<and> RInfo (WhyHoistedTo (js ''c'')) \<notin> set (fst (run posixNoFiles exampleInstall [js ''c'']))
   \<and> cleanQuery posixNoFiles (js ''c'') \<noteq> originalKey infoC"
proof -
  have q1: "cleanQuery posixNoFiles (js ''a#b#c'') = originalKey infoC"
    by (simp add: posixNoFiles_def string_defs infoC_def)
  have q2: "cleanQuery posixNoFiles (js ''c'') \<noteq> originalKey infoC"
    by (simp add: posixNoFiles_def string_defs infoC_def)
  have k: "js ''c'' = key infoC"
    by (simp add: infoC_def)
  from hoistedTo_iff_query_is_originalKey [OF run_example_abc findMatch_example_abc, of "js ''c''"] q1 k
  have "RInfo (WhyHoistedTo (js ''c'')) \<in> set (fst (run posixNoFiles exampleInstall [js ''a#b#c'']))"
    by (simp only: run_example_abc fst_conv simp_thms)
  moreover
  from hoistedTo_iff_query_is_originalKey [OF run_example_c findMatch_example_c, of "js ''c''"] q2
  have "RInfo (WhyHoistedTo (js ''c'')) \<notin> set (fst (run posixNoFiles exampleInstall [js ''c'']))"
    by (simp only: run_example_c fst_conv simp_thms)
  ultimately show ?thesis using q1 q2 by blast
qed

text \<open>
  Claim C4: when the cleaned query matches no entry of the hoisted tree, \<open>run\<close> reports
  the three steps and the error \<^verbatim>\<open>whyUnknownMatch\<close>, nothing else, and returns without an
  exception.
\<close>

theorem run_not_found:
  assumes "\<forall>entry\<in>set (flatHoistedTree inst).
             key (snd entry) \<noteq> cleanQuery config arg0
           \<and> cleanQuery config arg0 \<notin> set (previousKeys (snd entry))"
  shows "run config inst (arg0 # rest) =
           ([RStep 1 3 WhyStart ThinkingFace, RStep 2 3 WhyInitGraph Truck, RStep 3 3 WhyFinding Mag,
             RError WhyUnknownMatch], None)"
proof -
  from assms have "findMatch (flatHoistedTree inst) (cleanQuery config arg0) = None"
    by (rule findMatch_no_match)
  then show ?thesis by (simp add: run_def)
qed

theorem run_not_found_witness:
  "run posixNoFiles exampleInstall [js ''left-pad''] =
     ([RStep 1 3 WhyStart ThinkingFace, RStep 2 3 WhyInitGraph Truck, RStep 3 3 WhyFinding Mag,
       RError WhyUnknownMatch], None)"
proof -
  have h: "\<forall>entry\<in>set (flatHoistedTree exampleInstall).
             key (snd entry) \<noteq> cleanQuery posixNoFiles (js ''left-pad'')
           \<and> cleanQuery posixNoFiles (js ''left-pad'') \<notin> set (previousKeys (snd entry))"
    by (simp add: example_defs string_defs)
  from run_not_found [OF h] show ?thesis .
qed

text \<open>
  Claim C5, as stated: every entry of the previous keys of the match is surfaced as a
  hoisted-from reason. It fails for an entry that equals the current key: the loop skips
  it.
\<close>

theorem hoistedFrom_current_key_counterexample:
  "findMatch (flatHoistedTree exampleInstall) (cleanQuery posixNoFiles (js ''c'')) = Some infoC
   \<and> key infoC = js ''c''
   \<and> previousKeys infoC = [js ''a#b#c'', js ''a#c'', js ''c'']
   \<and> reportedReasons (fst (run posixNoFiles exampleInstall [js ''c''])) =
       [WhyDependedOn (js ''a#b''), WhyHoistedFrom (js ''a#b#c''), WhyHoistedFrom (js ''a#c'')]
   \<and> WhyHoistedFrom (js ''c'') \<notin> set (reportedReasons (fst (run posixNoFiles exampleInstall [js ''c''])))"
  unfolding reportedReasons_example_c using findMatch_example_c by (simp add: infoC_def js_def)

text \<open>
  Claim C5, amended: when \<open>run\<close> returns with a match, the hoisted-from reasons it
  reports are, in order, the previous keys of the match that differ from its current key.
\<close>

theorem hoistedFrom_previous_keys:
  assumes "run config inst (arg0 # rest) = (log, None)"
      and "findMatch (flatHoistedTree inst) (cleanQuery config arg0) = Some match"
  shows "filter isHoistedFrom (reportedReasons log) =
           map WhyHoistedFrom (filter (\<lambda>p. p \<noteq> key match) (previousKeys match))"
proof -
  from run_normal [OF assms] obtain matchRef where ref: "reference (pkg match) = Some matchRef"
    by blast
  from run_reasons [OF assms ref] obtain reasons1 where
    dep: "dependedOnReasons (resolver inst) (requests matchRef) [] = Inr reasons1" and
    reasons: "reportedReasons log =
               reasons1
               @ map WhySpecified (filter (\<lambda>rootType. rootType \<noteq> [])
                   (List.map_filter (rootPatternsToOrigin inst) (patterns matchRef)))
               @ map WhyHoistedFrom (filter (\<lambda>p. p \<noteq> key match) (previousKeys match))"
    by blast
  from dependedOnReasons_all_dependedOn [OF dep] have "filter isHoistedFrom reasons1 = []"
    by auto
  then show ?thesis
    unfolding reasons by (simp add: filter_map_WhySpecified filter_map_WhyHoistedFrom)
qed

theorem hoistedFrom_previous_keys_witness:
  "filter isHoistedFrom (reportedReasons (fst (run posixNoFiles exampleInstall [js ''c'']))) =
     [WhyHoistedFrom (js ''a#b#c''), WhyHoistedFrom (js ''a#c'')]"
proof -
  have "filter (\<lambda>p. p \<noteq> key infoC) (previousKeys infoC) = [js ''a#b#c'', js ''a#c'']"
    by (simp add: infoC_def js_def)
  with hoistedFrom_previous_keys [OF run_example_c findMatch_example_c]
  show ?thesis by (simp only: run_example_c fst_conv list.map)
qed

lemma nonempty_classifications:
  "\<forall>p\<in>set ps. origin p \<noteq> Some [] \<Longrightarrow>
     filter (\<lambda>rootType. rootType \<noteq> []) (List.map_filter origin ps) = List.map_filter origin ps"
  by (induction ps) (auto simp: List.map_filter_simps split: option.splits)

text \<open>
  Claim C6: the classifications are names of manifest sections, none of them empty. When
  \<open>run\<close> returns with a match, the specified-in-manifest reasons it reports are then, in
  the order of the patterns of the match, the classifications that the origin map holds
  for them, unchanged: one for every pattern in the map, none for a pattern the map does
  not hold.
\<close>

theorem specified_reasons:
  assumes "run config inst (arg0 # rest) = (log, None)"
      and "findMatch (flatHoistedTree inst) (cleanQuery config arg0) = Some match"
      and "reference (pkg match) = Some matchRef"
      and "\<forall>p\<in>set (patterns matchRef). rootPatternsToOrigin inst p \<noteq> Some []"
  shows "filter isSpecified (reportedReasons log) =
           map WhySpecified (List.map_filter (rootPatternsToOrigin inst) (patterns matchRef))"
proof -
  from run_reasons [OF assms(1-3)] obtain reasons1 where
    dep: "dependedOnReasons (resolver inst) (requests matchRef) [] = Inr reasons1" and
    reasons: "reportedReasons log =
               reasons1
               @ map WhySpecified (filter (\<lambda>rootType. rootType \<noteq> [])
                   (List.map_filter (rootPatternsToOrigin inst) (patterns matchRef)))
               @ map WhyHoistedFrom (filter (\<lambda>p. p \<noteq> key match) (previousKeys match))"
    by blast
  from dependedOnReasons_all_dependedOn [OF dep] have "filter isSpecified reasons1 = []"
    by auto
  then have "filter isSpecified (reportedReasons log) =
      map WhySpecified (filter (\<lambda>rootType. rootType \<noteq> [])
        (List.map_filter (rootPatternsToOrigin inst) (patterns matchRef)))"
    unfolding reasons by (simp add: filter_map_WhySpecified filter_map_WhyHoistedFrom)
  then show ?thesis
    by (simp only: nonempty_classifications [OF assms(4)])
qed

theorem specified_reasons_witness:
  "filter isSpecified (reportedReasons (fst (run posixNoFiles exampleInstall [js ''a''])))
     = [WhySpecified (js ''dependencies'')]
   \<and> rootPatternsToOrigin exampleInstall (js ''a@^1.0.0'') = Some (js ''dependencies'')"
proof -
  have origin: "rootPatternsToOrigin exampleInstall (js ''a@^1.0.0'') = Some (js ''dependencies'')"
    by (simp add: exampleInstall_def js_def)
  then have classified: "List.map_filter (rootPatternsToOrigin exampleInstall) [js ''a@^1.0.0'']
      = [js ''dependencies'']"
    by (simp add: List.map_filter_simps)
  have nonempty: "\<forall>p\<in>set (patterns \<lparr>patterns = [js ''a@^1.0.0''], requests = [reqA]\<rparr>).
      rootPatternsToOrigin exampleInstall p \<noteq> Some []"
    using origin by (simp add: js_def)
  from specified_reasons [OF run_example_a findMatch_example_a reference_infoA nonempty]
    classified origin
  show ?thesis by (simp only: run_example_a fst_conv list.map packageReference.simps simp_thms)
qed

text \<open>
  Claim C7: if the pattern of every request on the parent chain of every request of the
  matched package is resolved, then every chain walk returns a chain, and \<open>run\<close> returns
  without an exception: the strict accessor never fails.
\<close>

theorem chain_walk_resolved:
  assumes "findMatch (flatHoistedTree inst) (cleanQuery config arg0) = Some match"
      and "reference (pkg match) = Some matchRef"
      and "\<forall>request\<in>set (requests matchRef). \<forall>parent. parentRequest request = Some parent \<longrightarrow>
             (\<forall>ancestor\<in>set (parentChain parent).
                getResolvedPattern (resolver inst) (pattern ancestor) \<noteq> None)"
  shows "snd (run config inst (arg0 # rest)) = None
         \<and> (\<forall>request\<in>set (requests matchRef). \<forall>parent. parentRequest request = Some parent \<longrightarrow>
              (\<exists>chain. chainWalk (resolver inst) parent [] = Inr chain))"
proof
  from dependedOnReasons_complete [OF assms(3)] obtain reasons1 where
    dep: "dependedOnReasons (resolver inst) (requests matchRef) [] = Inr reasons1"
    by blast
  show "snd (run config inst (arg0 # rest)) = None"
    unfolding run_matched [OF assms(1,2) dep] by (rule snd_conv)
  show "\<forall>request\<in>set (requests matchRef). \<forall>parent. parentRequest request = Some parent \<longrightarrow>
              (\<exists>chain. chainWalk (resolver inst) parent [] = Inr chain)"
    using assms(3) chainWalk_complete by blast
qed

theorem chain_walk_resolved_witness:
  "snd (run posixNoFiles exampleInstall [js ''c'']) = None
   \<and> chainWalk (resolver exampleInstall) reqB [] = Inr [js ''b'', js ''a'']"
proof -
  have complete: "\<forall>request\<in>set (requests \<lparr>patterns = [js ''c@^1.0.0''], requests = [reqC]\<rparr>).
      \<forall>parent. parentRequest request = Some parent \<longrightarrow>
        (\<forall>ancestor\<in>set (parentChain parent).
           getResolvedPattern (resolver exampleInstall) (pattern ancestor) \<noteq> None)"
    by (simp add: getResolvedPattern_def example_defs js_def)
  have walk: "chainWalk (resolver exampleInstall) reqB [] = Inr [js ''b'', js ''a'']"
    by (simp add: getStrictResolvedPattern_def getResolvedPattern_def example_defs js_def)
  from chain_walk_resolved [OF findMatch_example_c reference_infoC complete, of "[]"] walk
  show ?thesis by blast
qed

text \<open>
  Claim C8: a request without a parent, or whose parent has an unresolved pattern,
  leaves the reasons as they are. If all requests of the matched package are such, \<open>run\<close>
  returns without an exception and reports no depended-on reason: its reasons are the
  specified-in-manifest ones followed by the hoisted-from ones.
\<close>

theorem requests_without_resolved_parent:
  "(\<not> hasResolvedParent res request \<longrightarrow>
      dependedOnReasons res (request # others) reasons = dependedOnReasons res others reasons)
   \<and> (findMatch (flatHoistedTree inst) (cleanQuery config arg0) = Some match
      \<and> reference (pkg match) = Some matchRef
      \<and> (\<forall>r\<in>set (requests matchRef). \<not> hasResolvedParent (resolver inst) r)
      \<longrightarrow> snd (run config inst (arg0 # rest)) = None
        \<and> filter isDependedOn (reportedReasons (fst (run config inst (arg0 # rest)))) = []
        \<and> reportedReasons (fst (run config inst (arg0 # rest))) =
            map WhySpecified (filter (\<lambda>rootType. rootType \<noteq> [])
              (List.map_filter (rootPatternsToOrigin inst) (patterns matchRef)))
            @ map WhyHoistedFrom (filter (\<lambda>p. p \<noteq> key match) (previousKeys match)))"
proof (intro conjI impI)
  assume "\<not> hasResolvedParent res request"
  then show "dependedOnReasons res (request # others) reasons = dependedOnReasons res others reasons"
    by (rule dependedOnReasons_skip)
next
  assume a: "findMatch (flatHoistedTree inst) (cleanQuery config arg0) = Some match
      \<and> reference (pkg match) = Some matchRef
      \<and> (\<forall>r\<in>set (requests matchRef). \<not> hasResolvedParent (resolver inst) r)"
  then have m: "findMatch (flatHoistedTree inst) (cleanQuery config arg0) = Some match"
    and ref: "reference (pkg match) = Some matchRef"
    and none: "\<forall>r\<in>set (requests matchRef). \<not> hasResolvedParent (resolver inst) r"
    by blast+
  from none have dep: "dependedOnReasons (resolver inst) (requests matchRef) [] = Inr []"
    by (rule dependedOnReasons_none_eligible)
  show "snd (run config inst (arg0 # rest)) = None"
    unfolding run_matched [OF m ref dep] by (rule snd_conv)
  have reasons: "reportedReasons (fst (run config inst (arg0 # rest))) =
            map WhySpecified (filter (\<lambda>rootType. rootType \<noteq> [])
              (List.map_filter (rootPatternsToOrigin inst) (patterns matchRef)))
            @ map WhyHoistedFrom (filter (\<lambda>p. p \<noteq> key match) (previousKeys match))"
    unfolding run_reportedReasons [OF m ref dep] by (rule append_Nil)
  then show "reportedReasons (fst (run config inst (arg0 # rest))) =
            map WhySpecified (filter (\<lambda>rootType. rootType \<noteq> [])
              (List.map_filter (rootPatternsToOrigin inst) (patterns matchRef)))
            @ map WhyHoistedFrom (filter (\<lambda>p. p \<noteq> key match) (previousKeys match))" .
  show "filter isDependedOn (reportedReasons (fst (run config inst (arg0 # rest)))) = []"
    unfolding reasons by (simp add: filter_map_WhySpecified filter_map_WhyHoistedFrom)
qed

theorem requests_without_resolved_parent_witness:
  "\<not> hasResolvedParent (resolver exampleInstall) reqA
   \<and> dependedOnReasons (resolver exampleInstall) [reqA, reqC] [] =
       dependedOnReasons (resolver exampleInstall) [reqC] []
   \<and> snd (run posixNoFiles exampleInstall [js ''a'']) = None
   \<and> filter isDependedOn (reportedReasons (fst (run posixNoFiles exampleInstall [js ''a'']))) = []"
proof -
  have root: "\<not> hasResolvedParent (resolver exampleInstall) reqA"
    by (simp add: hasResolvedParent_def reqA_def)
  have only: "\<forall>r\<in>set (requests \<lparr>patterns = [js ''a@^1.0.0''], requests = [reqA]\<rparr>).
      \<not> hasResolvedParent (resolver exampleInstall) r"
    using root by simp
  from requests_without_resolved_parent
    [of "resolver exampleInstall" reqA "[reqC]" "[]" exampleInstall posixNoFiles "js ''a''" infoA
        "\<lparr>patterns = [js ''a@^1.0.0''], requests = [reqA]\<rparr>" "[]"]
    root only findMatch_example_a reference_infoA
  show ?thesis by blast
qed

text \<open>
  Claim C10: whenever \<open>run\<close> returns with a match, its log ends with the same four
  statistics: \<^verbatim>\<open>0MB\<close> three times and \<open>0\<close> shared dependencies.
\<close>

theorem run_disk_stats:
  assumes "run config inst (arg0 # rest) = (log, None)"
      and "findMatch (flatHoistedTree inst) (cleanQuery config arg0) = Some match"
  shows "\<exists>before. log = before @
           [RInfo (WhyDiskSizeWithout (js ''0MB'')), RInfo (WhyDiskSizeUnique (js ''0MB'')),
            RInfo (WhyDiskSizeTransitive (js ''0MB'')), RInfo (WhySharedDependencies 0)]"
proof -
  from run_normal [OF assms] obtain matchRef reasons1 where
    ref: "reference (pkg match) = Some matchRef" and
    dep: "dependedOnReasons (resolver inst) (requests matchRef) [] = Inr reasons1"
    by blast
  let ?before = "[RStep 1 3 WhyStart ThinkingFace, RStep 2 3 WhyInitGraph Truck, RStep 3 3 WhyFinding Mag]
            @ (if cleanQuery config arg0 = originalKey match then [RInfo (WhyHoistedTo (key match))] else [])
            @ reportReasons (hoistedFromReasons (key match) (previousKeys match)
                (specifiedReasons (rootPatternsToOrigin inst) (patterns matchRef) reasons1))"
  let ?stats = "[RInfo (WhyDiskSizeWithout (js ''0MB'')), RInfo (WhyDiskSizeUnique (js ''0MB'')),
               RInfo (WhyDiskSizeTransitive (js ''0MB'')), RInfo (WhySharedDependencies 0)]"
  have "run config inst (arg0 # rest) = (?before @ ?stats, None)"
    unfolding run_matched [OF assms(2) ref dep] by (simp only: append_assoc)
  with assms(1) have "(log, None :: error option) = (?before @ ?stats, None)"
    by (simp only:)
  then have eq: "log = ?before @ ?stats"
    by (simp only: prod.inject simp_thms)
  show ?thesis
    by (rule exI [of _ ?before]) (rule eq)
qed

theorem run_disk_stats_witness:
  "\<exists>before. fst (run posixNoFiles exampleInstall [js ''c'']) = before @
     [RInfo (WhyDiskSizeWithout (js ''0MB'')), RInfo (WhyDiskSizeUnique (js ''0MB'')),
      RInfo (WhyDiskSizeTransitive (js ''0MB'')), RInfo (WhySharedDependencies 0)]"
  using run_disk_stats [OF run_example_c findMatch_example_c]
  by (simp only: run_example_c fst_conv)

end
